theory Spec2Isabelle
  imports Main
begin

section \<open>Python values and exceptions used by the PDF utilities\<close>

text \<open>
  The three scripts (\<open>reorder.py\<close>, \<open>split.py\<close>, \<open>merge.py\<close>) raise through
  \<open>assert\<close>, through list operations of the interpreter and through \<open>exit(-1)\<close>.
  Every one of these is a value of \<open>exn\<close>; a function that may raise returns
  \<open>exn + 'a\<close> with \<open>Inl\<close> for the exception.
\<close>

datatype exn =
    AssertionError
  | ValueError
  | IndexError
  | TypeError
  | KeyError
  | FileNotFoundError
  | IsADirectoryError
  | PermissionError
  | SystemExit int

text \<open>\<open>range(a, b)\<close> on unbounded integers; empty when \<open>b \<le> a\<close>.\<close>

definition py_range :: "int \<Rightarrow> int \<Rightarrow> int list" where
  "py_range a b = [a..b - 1]"

text \<open>
  \<open>xs[i]\<close> on a list: an index below zero counts from the end, an index outside the
  list raises \<open>IndexError\<close>.
\<close>

definition getitem :: "'a list \<Rightarrow> int \<Rightarrow> exn + 'a" where
  "getitem xs i =
     (if 0 \<le> i \<and> i < int (length xs) then Inr (xs ! nat i)
      else if i < 0 \<and> - int (length xs) \<le> i then Inr (xs ! nat (int (length xs) + i))
      else Inl IndexError)"

text \<open>
  Extended-slice assignment \<open>xs[lo::2] = vs\<close> for \<open>lo \<ge> 0\<close>. The slice selects
  the positions \<open>lo, lo + 2, ...\<close> below \<open>len(xs)\<close>; Python raises
  \<open>ValueError\<close> unless \<open>vs\<close> has exactly as many elements as the slice has positions,
  and otherwise overwrites those positions in order. \<open>put_step2\<close> is the overwrite
  from position 0.
\<close>

fun put_step2 :: "'a list \<Rightarrow> 'a list \<Rightarrow> 'a list" where
  "put_step2 (x # y # xs) (v # vs) = v # y # put_step2 xs vs"
| "put_step2 [x] (v # vs) = [v]"
| "put_step2 xs [] = xs"
| "put_step2 [] vs = []"

definition assign_step2 :: "nat \<Rightarrow> 'a list \<Rightarrow> 'a list \<Rightarrow> exn + 'a list" where
  "assign_step2 lo xs vs =
     (if length vs \<noteq> (length xs - lo + 1) div 2 then Inl ValueError
      else Inr (take lo xs @ put_step2 (drop lo xs) vs))"

section \<open>reorder.py\<close>

text \<open>
  \<open>_make_sequence(n)\<close>, lines 12 to 22 of \<open>reorder.py\<close>: the assertion, the two halves of
  \<open>range(0, n)\<close>, the second half reversed, and the two slice assignments into
  \<open>list(range(0, n))\<close>.
\<close>

definition make_sequence :: "int \<Rightarrow> exn + int list" where
  "make_sequence n =
     (if n mod 2 \<noteq> 0 then Inl AssertionError
      else
        let pages = py_range 0 n;
            half = length pages div 2;
            left = take half pages;
            right = rev (drop half pages);
            correct = py_range 0 n
        in case assign_step2 0 correct left of
             Inl e \<Rightarrow> Inl e
           | Inr correct1 \<Rightarrow> assign_step2 1 correct1 right)"

text \<open>
  The loop of \<open>reorder\<close>, lines 36 to 38: for every page number in \<open>order\<close> the page is
  fetched with \<open>getPage\<close> (an index into the reader's page list) and appended to the
  output.
\<close>

fun add_pages :: "'p list \<Rightarrow> int list \<Rightarrow> exn + 'p list" where
  "add_pages doc [] = Inr []"
| "add_pages doc (i # order) =
     (case getitem doc i of
        Inl e \<Rightarrow> Inl e
      | Inr page \<Rightarrow>
          (case add_pages doc order of
             Inl e \<Rightarrow> Inl e
           | Inr out \<Rightarrow> Inr (page # out)))"

text \<open>
  The documents on disk: a path that holds a PDF maps to the list of its pages.
  \<open>os.path.exists\<close> of a path is \<open>fs path \<noteq> None\<close>; the page objects themselves
  belong to the PDF library and stay abstract.
\<close>

type_synonym 'p fs = "string \<rightharpoonup> 'p list"

text \<open>
  \<open>reorder(input_filename, output_filename)\<close>, lines 25 to 43: the two assertions, the
  sequence for the page count of the input, the copy loop, and the write.
\<close>

definition reorder :: "'p fs \<Rightarrow> string \<Rightarrow> string \<Rightarrow> exn + 'p fs" where
  "reorder fs input_filename output_filename =
     (case fs input_filename of
        None \<Rightarrow> Inl AssertionError
      | Some doc \<Rightarrow>
          if fs output_filename \<noteq> None then Inl AssertionError
          else
            (case make_sequence (int (length doc)) of
               Inl e \<Rightarrow> Inl e
             | Inr order \<Rightarrow>
                 (case add_pages doc order of
                    Inl e \<Rightarrow> Inl e
                  | Inr out \<Rightarrow> Inr (fs(output_filename \<mapsto> out)))))"

text \<open>
  The script body of \<open>reorder.py\<close>, lines 53 to 64. The first component is what was
  written to \<open>sys.stderr\<close> by the script itself; \<open>exit(-1)\<close> is \<open>SystemExit (-1)\<close>.
\<close>

definition reorder_main :: "'p fs \<Rightarrow> string \<Rightarrow> string \<Rightarrow> string \<times> (exn + 'p fs)" where
  "reorder_main fs filename output =
     (if fs filename = None then
        (''Input file '' @ filename @ '' does not exist'', Inl (SystemExit (- 1)))
      else if fs output \<noteq> None \<and> filename \<noteq> output then
        (''Output file '' @ output @ '' already exists'', Inl (SystemExit (- 1)))
      else ([], reorder fs filename output))"

section \<open>split.py\<close>

text \<open>The named tuple \<open>Chapter\<close>, lines 14 to 19.\<close>

record Chapter =
  name :: string
  start :: int
  stop :: int

text \<open>
  \<open>int(s)\<close> on an ASCII string: surrounding whitespace is dropped, one sign is allowed,
  and the rest is decimal digits in which single underscores may separate digits;
  anything else raises \<open>ValueError\<close>.
\<close>

definition is_space :: "char \<Rightarrow> bool" where
  "is_space c = (c \<in> set [CHR '' '', CHR 0x09, CHR 0x0A, CHR 0x0B, CHR 0x0C, CHR 0x0D])"

definition strip :: "string \<Rightarrow> string" where
  "strip s = rev (dropWhile is_space (rev (dropWhile is_space s)))"

definition digit_of :: "char \<Rightarrow> nat option" where
  "digit_of c =
     (let code = (of_char c :: nat)
      in if 48 \<le> code \<and> code \<le> 57 then Some (code - 48) else None)"

fun parse_digits :: "nat \<Rightarrow> string \<Rightarrow> nat option" where
  "parse_digits acc [] = Some acc"
| "parse_digits acc (c # cs) =
     (if c = CHR ''_'' then
        (case cs of
           [] \<Rightarrow> None
         | d # _ \<Rightarrow> if digit_of d = None then None else parse_digits acc cs)
      else
        (case digit_of c of
           None \<Rightarrow> None
         | Some d \<Rightarrow> parse_digits (10 * acc + d) cs))"

definition py_int :: "string \<Rightarrow> exn + int" where
  "py_int s =
     (let t = strip s;
          negative = (t \<noteq> [] \<and> hd t = CHR ''-'');
          body = (if t \<noteq> [] \<and> (hd t = CHR ''-'' \<or> hd t = CHR ''+'') then tl t else t)
      in case body of
           [] \<Rightarrow> Inl ValueError
         | c # _ \<Rightarrow>
             if digit_of c = None then Inl ValueError
             else
               (case parse_digits 0 body of
                  None \<Rightarrow> Inl ValueError
                | Some v \<Rightarrow> Inr (if negative then - int v else int v)))"

text \<open>
  A row as \<open>csv.DictReader\<close> yields it: the column names of the header mapped to the
  fields of the row. \<open>row['name']\<close> raises \<open>KeyError\<close> when the header has no such
  column.
\<close>

type_synonym row = "string \<rightharpoonup> string"

definition lookup :: "row \<Rightarrow> string \<Rightarrow> exn + string" where
  "lookup r k = (case r k of None \<Rightarrow> Inl KeyError | Some v \<Rightarrow> Inr v)"

text \<open>The body of the loop of \<open>_parse_splits_file\<close>, lines 29 to 32.\<close>

definition parse_row :: "row \<Rightarrow> exn + Chapter" where
  "parse_row r =
     (case lookup r ''name'' of
        Inl e \<Rightarrow> Inl e
      | Inr n \<Rightarrow>
          (case lookup r ''start'' of
             Inl e \<Rightarrow> Inl e
           | Inr s \<Rightarrow>
               (case py_int s of
                  Inl e \<Rightarrow> Inl e
                | Inr a \<Rightarrow>
                    (case lookup r ''end'' of
                       Inl e \<Rightarrow> Inl e
                     | Inr t \<Rightarrow>
                         (case py_int t of
                            Inl e \<Rightarrow> Inl e
                          | Inr b \<Rightarrow> Inr \<lparr>name = n, start = a, stop = b\<rparr>)))))"

fun parse_rows :: "Chapter list \<Rightarrow> row list \<Rightarrow> exn + Chapter list" where
  "parse_rows output [] = Inr output"
| "parse_rows output (r # rows) =
     (case parse_row r of
        Inl e \<Rightarrow> Inl e
      | Inr entry \<Rightarrow> parse_rows (output @ [entry]) rows)"

text \<open>
  \<open>_parse_splits_file(filename)\<close>, lines 22 to 35. The Chapter lists on disk are a
  second map, from the path of a CSV file to its rows.
\<close>

definition parse_splits_file :: "(string \<rightharpoonup> row list) \<Rightarrow> string \<Rightarrow> exn + Chapter list" where
  "parse_splits_file csvs filename =
     (case csvs filename of
        None \<Rightarrow> Inl AssertionError
      | Some rows \<Rightarrow> parse_rows [] rows)"

text \<open>\<open>os.path.join(a, b)\<close> of \<open>posixpath\<close> for two components.\<close>

definition path_join :: "string \<Rightarrow> string \<Rightarrow> string" where
  "path_join a b =
     (if b \<noteq> [] \<and> hd b = CHR ''/'' then b
      else if a = [] \<or> last a = CHR ''/'' then a @ b
      else a @ ''/'' @ b)"

text \<open>
  One round of the loop of \<open>split\<close>, lines 42 to 58: the input is opened again, the pages
  \<open>range(chapter.start - 1, chapter.stop)\<close> are copied, the output path is opened for writing,
  and the pages are written. \<open>open(path, "wb")\<close> raises for a path in a missing directory
  (\<open>FileNotFoundError\<close>), for a path that names a directory, as \<open>os.path.join(d, '')\<close> does
  (\<open>IsADirectoryError\<close>), and for a path the process may not write (\<open>PermissionError\<close>).
  Which paths these are is a fact of the system the script runs on: \<open>open_wb path\<close> is the
  exception that opening \<open>path\<close> for writing raises there, or \<open>None\<close> when it opens.
\<close>

definition split_chapter ::
  "'p fs \<Rightarrow> (string \<Rightarrow> exn option) \<Rightarrow> string \<Rightarrow> string \<Rightarrow> Chapter \<Rightarrow> exn + 'p fs" where
  "split_chapter fs open_wb filename directory ch =
     (case fs filename of
        None \<Rightarrow> Inl FileNotFoundError
      | Some doc \<Rightarrow>
          (case add_pages doc (py_range (start ch - 1) (stop ch)) of
             Inl e \<Rightarrow> Inl e
           | Inr out \<Rightarrow>
               (case open_wb (path_join directory (name ch)) of
                  Some e \<Rightarrow> Inl e
                | None \<Rightarrow> Inr (fs(path_join directory (name ch) \<mapsto> out)))))"

fun split_loop ::
  "'p fs \<Rightarrow> (string \<Rightarrow> exn option) \<Rightarrow> string \<Rightarrow> Chapter list \<Rightarrow> string \<Rightarrow> exn + 'p fs" where
  "split_loop fs open_wb filename [] directory = Inr fs"
| "split_loop fs open_wb filename (ch # chapters) directory =
     (case split_chapter fs open_wb filename directory ch of
        Inl e \<Rightarrow> Inl e
      | Inr fs' \<Rightarrow> split_loop fs' open_wb filename chapters directory)"

text \<open>\<open>split(filename, chapters, directory)\<close>, lines 38 to 58.\<close>

definition split ::
  "'p fs \<Rightarrow> (string \<Rightarrow> exn option) \<Rightarrow> string \<Rightarrow> Chapter list \<Rightarrow> string \<Rightarrow> exn + 'p fs" where
  "split fs open_wb filename chapters directory =
     (if fs filename = None then Inl AssertionError
      else split_loop fs open_wb filename chapters directory)"

section \<open>merge.py\<close>

text \<open>
  What \<open>_expand_files\<close> asks of the operating system: \<open>os.path.isfile\<close>,
  \<open>os.path.isdir\<close>, the entries of \<open>Path(d).glob("*.*")\<close> and those of \<open>glob(pattern)\<close>.
\<close>

record os_view =
  isfile :: "string \<Rightarrow> bool"
  isdir :: "string \<Rightarrow> bool"
  dir_glob :: "string \<Rightarrow> string list"
  glob :: "string \<Rightarrow> string list"

text \<open>
  The right operands that \<open>_expand_files\<close> adds to its list: a \<open>str\<close>, the generator
  returned by \<open>Path.glob\<close>, and the list returned by \<open>glob\<close>. \<open>list + x\<close> is defined
  only when \<open>x\<close> is a list and raises \<open>TypeError\<close> otherwise.
\<close>

datatype pyval = PyStr string | PyGenerator "string list" | PyList "string list"

fun list_add :: "string list \<Rightarrow> pyval \<Rightarrow> exn + string list" where
  "list_add xs (PyList ys) = Inr (xs @ ys)"
| "list_add xs (PyStr s) = Inl TypeError"
| "list_add xs (PyGenerator ys) = Inl TypeError"

text \<open>\<open>_expand_files(filenames)\<close>, lines 16 to 28, with \<open>result\<close> as the accumulator.\<close>

fun expand_loop :: "os_view \<Rightarrow> string list \<Rightarrow> string list \<Rightarrow> exn + string list" where
  "expand_loop os result [] = Inr result"
| "expand_loop os result (filename # filenames) =
     (case (if isfile os filename then list_add result (PyStr filename) else Inr result) of
        Inl e \<Rightarrow> Inl e
      | Inr result1 \<Rightarrow>
          (case (if isdir os filename
                 then list_add result1 (PyGenerator (dir_glob os filename))
                 else list_add result1 (PyList (glob os filename))) of
             Inl e \<Rightarrow> Inl e
           | Inr result2 \<Rightarrow> expand_loop os result2 filenames))"

definition expand_files :: "os_view \<Rightarrow> string list \<Rightarrow> exn + string list" where
  "expand_files os filenames = expand_loop os [] filenames"

text \<open>
  \<open>if skip_front:\<close> is false for \<open>None\<close> and for \<open>0\<close>. \<open>pages[k:]\<close> drops the first
  \<open>k\<close> pages for \<open>k \<ge> 0\<close> and keeps the last \<open>-k\<close> pages for \<open>k < 0\<close>; it never
  raises.
\<close>

definition truthy :: "int option \<Rightarrow> bool" where
  "truthy skip_front = (case skip_front of None \<Rightarrow> False | Some k \<Rightarrow> k \<noteq> 0)"

definition slice_from :: "'a list \<Rightarrow> int \<Rightarrow> 'a list" where
  "slice_from xs k =
     (if 0 \<le> k then drop (nat k) xs else drop (nat (int (length xs) + k)) xs)"

text \<open>The pages one source contributes, lines 38 to 41 of \<open>merge.py\<close>.\<close>

definition source_pages :: "'p list \<Rightarrow> int option \<Rightarrow> 'p list" where
  "source_pages source skip_front =
     (if truthy skip_front then slice_from source (the skip_front) else source)"

text \<open>
  The loop of \<open>merge\<close>, lines 34 to 41: \<open>pikepdf.open\<close> of a path that holds no document
  raises; otherwise the pages of the source are appended to \<open>merged\<close>.
\<close>

fun merge_loop :: "'p fs \<Rightarrow> 'p list \<Rightarrow> string list \<Rightarrow> int option \<Rightarrow> exn + 'p list" where
  "merge_loop fs merged [] skip_front = Inr merged"
| "merge_loop fs merged (filename # filenames) skip_front =
     (case fs filename of
        None \<Rightarrow> Inl FileNotFoundError
      | Some source \<Rightarrow>
          merge_loop fs (merged @ source_pages source skip_front) filenames skip_front)"

text \<open>\<open>merge(output, filenames, skip_front)\<close>, lines 31 to 43.\<close>

definition merge :: "'p fs \<Rightarrow> string \<Rightarrow> string list \<Rightarrow> int option \<Rightarrow> exn + 'p fs" where
  "merge fs output filenames skip_front =
     (case merge_loop fs [] filenames skip_front of
        Inl e \<Rightarrow> Inl e
      | Inr merged \<Rightarrow> Inr (fs(output \<mapsto> merged)))"

section \<open>Facts about ranges and slice assignment\<close>

lemma length_put_step2: "length (put_step2 xs vs) = length xs"
  by (induction xs vs rule: put_step2.induct) simp_all

lemma put_step2_even:
  "2 * k < length xs \<Longrightarrow> k < length vs \<Longrightarrow> put_step2 xs vs ! (2 * k) = vs ! k"
proof (induction xs vs arbitrary: k rule: put_step2.induct)
  case (1 x y xs v vs)
  show ?case
  proof (cases k)
    case 0
    then show ?thesis by simp
  next
    case (Suc j)
    with 1 show ?thesis by simp
  qed
qed simp_all

lemma put_step2_odd:
  "2 * k + 1 < length xs \<Longrightarrow> put_step2 xs vs ! (2 * k + 1) = xs ! (2 * k + 1)"
proof (induction xs vs arbitrary: k rule: put_step2.induct)
  case (1 x y xs v vs)
  show ?case
  proof (cases k)
    case 0
    then show ?thesis by simp
  next
    case (Suc j)
    with 1 show ?thesis by simp
  qed
qed simp_all

lemma py_range_0: "py_range 0 n = map int [0..<nat n]"
proof (cases "0 \<le> n")
  case True
  then obtain m where n: "n = int m" using nonneg_int_cases by blast
  have "[0..int m - 1] = map int [0..<m]"
  proof (induction m)
    case 0 show ?case by simp
  next
    case (Suc m)
    have "[0..int (Suc m) - 1] = [0..int m - 1] @ [int m]"
      using upto_rec2[of 0 "int m"] by simp
    with Suc show ?case by simp
  qed
  with n show ?thesis by (simp add: py_range_def)
next
  case False
  then show ?thesis by (simp add: py_range_def)
qed

lemma length_py_range_0: "length (py_range 0 n) = nat n"
  by (simp add: py_range_0)

section \<open>The sequence built by \<open>_make_sequence\<close>\<close>

text \<open>For an even \<open>n \<ge> 0\<close> neither slice assignment raises, and the result is the second
  assignment applied to the first.\<close>

lemma make_sequence_even:
  assumes "0 \<le> n" "even n"
  shows "make_sequence n =
     Inr (take 1 (put_step2 (py_range 0 n) (take (nat n div 2) (py_range 0 n))) @
          put_step2 (drop 1 (put_step2 (py_range 0 n) (take (nat n div 2) (py_range 0 n))))
            (rev (drop (nat n div 2) (py_range 0 n))))"
proof -
  obtain m where m: "nat n = 2 * m" using assms
    by (metis even_nat_iff evenE)
  have nm: "n mod 2 = 0" using assms by presburger
  show ?thesis
    unfolding make_sequence_def Let_def assign_step2_def
    using nm m by (simp add: length_py_range_0 length_put_step2)
qed

text \<open>The entries of the result, position by position.\<close>

lemma make_sequence_nth:
  assumes "0 \<le> n" "even n"
  shows "\<exists>R. make_sequence n = Inr R \<and> length R = nat n \<and>
           (\<forall>k < nat n div 2. R ! (2 * k) = int k \<and> R ! (2 * k + 1) = n - 1 - int k)"
proof -
  obtain m where m: "nat n = 2 * m" using assms
    by (metis even_nat_iff evenE)
  define pages where "pages = py_range 0 n"
  define c1 where "c1 = put_step2 pages (take m pages)"
  define right where "right = rev (drop m pages)"
  define R where "R = take 1 c1 @ put_step2 (drop 1 c1) right"
  have pages: "pages = map int [0..<2 * m]"
    unfolding pages_def by (simp add: py_range_0 m)
  have len_pages: "length pages = 2 * m" by (simp add: pages)
  have len_c1: "length c1 = 2 * m" by (simp add: c1_def length_put_step2 len_pages)
  have len_right: "length right = m" by (simp add: right_def len_pages)
  have ms: "make_sequence n = Inr R"
    using make_sequence_even[OF assms] m
    by (simp add: R_def c1_def right_def pages_def)
  have len_R: "length R = nat n"
    by (cases m) (simp_all add: R_def length_put_step2 len_c1 m)
  have nth: "R ! (2 * k) = int k \<and> R ! (2 * k + 1) = n - 1 - int k" if k: "k < m" for k
  proof
    have c1_even: "c1 ! (2 * j) = int j" if "j < m" for j
    proof -
      have "c1 ! (2 * j) = take m pages ! j"
        unfolding c1_def using that by (intro put_step2_even) (simp_all add: len_pages)
      then show ?thesis using that by (simp add: pages)
    qed
    show "R ! (2 * k) = int k"
    proof (cases k)
      case 0
      then show ?thesis using c1_even[of 0] k len_c1 by (simp add: R_def nth_append)
    next
      case (Suc j)
      have "R ! (2 * k) = put_step2 (drop 1 c1) right ! (2 * j + 1)"
        using Suc k len_c1 by (simp add: R_def nth_append)
      also have "\<dots> = drop 1 c1 ! (2 * j + 1)"
        using Suc k len_c1 by (intro put_step2_odd) simp
      also have "\<dots> = c1 ! (2 * k)"
        using Suc k len_c1 by simp
      finally show ?thesis using c1_even[OF k] by simp
    qed
    have "R ! (2 * k + 1) = put_step2 (drop 1 c1) right ! (2 * k)"
      using k len_c1 by (simp add: R_def nth_append)
    also have "\<dots> = right ! k"
      using k len_c1 len_right by (intro put_step2_even) simp_all
    also have "\<dots> = drop m pages ! (m - 1 - k)"
      unfolding right_def using k len_pages by (simp add: rev_nth)
    also have "\<dots> = int (m + (m - 1 - k))"
      using k by (simp add: pages)
    also have "\<dots> = n - 1 - int k"
      using k m assms by linarith
    finally show "R ! (2 * k + 1) = n - 1 - int k" .
  qed
  show ?thesis using ms len_R nth m by auto
qed

text \<open>Every index below \<open>n\<close> occurs, and as the list has \<open>n\<close> entries none occurs twice.\<close>

lemma make_sequence_perm:
  assumes "0 \<le> n" "even n" "make_sequence n = Inr R"
  shows "set R = {0..n - 1}" "distinct R"
proof -
  obtain m where m: "nat n = 2 * m" using assms
    by (metis even_nat_iff evenE)
  from make_sequence_nth[OF assms(1,2)] assms(3)
  have len: "length R = 2 * m"
    and nth: "\<And>k. k < m \<Longrightarrow> R ! (2 * k) = int k \<and> R ! (2 * k + 1) = n - 1 - int k"
    using m by auto
  have n: "n = 2 * int m" using m assms by linarith
  have sub: "set R \<subseteq> {0..n - 1}"
  proof
    fix v assume "v \<in> set R"
    then obtain i where i: "i < 2 * m" "R ! i = v"
      using len by (metis in_set_conv_nth)
    show "v \<in> {0..n - 1}"
    proof (cases "even i")
      case True
      then obtain k where "i = 2 * k" by (auto elim: evenE)
      with i nth[of k] n show ?thesis by auto
    next
      case False
      then obtain k where "i = 2 * k + 1" by (auto elim: oddE)
      with i nth[of k] n show ?thesis by auto
    qed
  qed
  have sup: "{0..n - 1} \<subseteq> set R"
  proof
    fix v assume v: "v \<in> {0..n - 1}"
    show "v \<in> set R"
    proof (cases "v < int m")
      case True
      with v have k: "nat v < m" by auto
      from nth[OF k] v have "R ! (2 * nat v) = v" by simp
      moreover have "2 * nat v < length R" using k len by simp
      ultimately show ?thesis by (metis nth_mem)
    next
      case False
      with v n have k: "nat (n - 1 - v) < m" by auto
      from nth[OF k] v n False have "R ! (2 * nat (n - 1 - v) + 1) = v" by simp
      moreover have "2 * nat (n - 1 - v) + 1 < length R" using k len by simp
      ultimately show ?thesis by (metis nth_mem)
    qed
  qed
  from sub sup show set: "set R = {0..n - 1}" by blast
  have "card (set R) = length R"
    using set len n by simp
  then show "distinct R" by (rule card_distinct)
qed

lemma make_sequence_4: "make_sequence 4 = Inr [0, 3, 1, 2]"
  by code_simp

lemma make_sequence_8: "make_sequence 8 = Inr [0, 7, 1, 6, 2, 5, 3, 4]"
  by code_simp

text \<open>Copying pages by in-range page numbers is a \<open>map\<close>.\<close>

lemma add_pages_map:
  "\<forall>i \<in> set order. 0 \<le> i \<and> i < int (length doc) \<Longrightarrow>
   add_pages doc order = Inr (map (\<lambda>i. doc ! nat i) order)"
  by (induction order) (simp_all add: getitem_def)

section \<open>Claims about the page reorder transform\<close>

text \<open>
  Claim C1. For every even \<open>n \<ge> 0\<close> the call \<open>_make_sequence(n)\<close> returns a list \<open>R\<close> of
  length \<open>n\<close> with \<open>R[2k] = k\<close> and \<open>R[2k + 1] = n - 1 - k\<close> for every \<open>k\<close> in
  \<open>0 .. n/2 - 1\<close>: the front half ascending at the even positions, the back half reversed at
  the odd positions. For \<open>n = 4\<close> the result is \<open>[0, 3, 1, 2]\<close> and for \<open>n = 8\<close> it is
  \<open>[0, 7, 1, 6, 2, 5, 3, 4]\<close>.
\<close>

theorem make_sequence_interleaves:
  assumes "0 \<le> n" and "even n"
  shows "(\<exists>R. make_sequence n = Inr R \<and> length R = nat n \<and>
            (\<forall>k. 0 \<le> k \<and> k < n div 2 \<longrightarrow>
               getitem R (2 * k) = Inr k \<and> getitem R (2 * k + 1) = Inr (n - 1 - k))) \<and>
         make_sequence 4 = Inr [0, 3, 1, 2] \<and>
         make_sequence 8 = Inr [0, 7, 1, 6, 2, 5, 3, 4]"
proof -
  from make_sequence_nth[OF assms] obtain R where
    R: "make_sequence n = Inr R" and len: "length R = nat n" and
    nth: "\<forall>j < nat n div 2. R ! (2 * j) = int j \<and> R ! (2 * j + 1) = n - 1 - int j"
    by blast
  have "getitem R (2 * k) = Inr k \<and> getitem R (2 * k + 1) = Inr (n - 1 - k)"
    if k: "0 \<le> k \<and> k < n div 2" for k
  proof -
    have "nat n div 2 = nat (n div 2)" using assms by (simp add: nat_div_distrib)
    then have j: "nat k < nat n div 2" using k by simp
    have in1: "0 \<le> 2 * k \<and> 2 * k < int (length R)" and in2: "0 \<le> 2 * k + 1 \<and> 2 * k + 1 < int (length R)"
      using k len assms by auto
    have "nat (2 * k) = 2 * nat k" and "nat (2 * k + 1) = 2 * nat k + 1"
      using k by auto
    with nth j in1 in2 k show ?thesis by (simp add: getitem_def)
  qed
  with R len show ?thesis using make_sequence_4 make_sequence_8 by blast
qed

theorem make_sequence_interleaves_witness:
  "(0::int) \<le> 4 \<and> even (4::int) \<and>
   (\<exists>R. make_sequence 4 = Inr R \<and> length R = 4 \<and>
        (0::int) \<le> 1 \<and> (1::int) < 4 div 2 \<and>
        getitem R (2 * 1) = Inr 1 \<and> getitem R (2 * 1 + 1) = Inr (4 - 1 - 1))"
proof -
  have h1: "(0::int) \<le> 4" and h2: "even (4::int)" by simp_all
  from make_sequence_interleaves[OF h1 h2] obtain R where
    R: "make_sequence 4 = Inr R" "length R = nat 4"
    and all: "\<forall>k. 0 \<le> k \<and> k < 4 div 2 \<longrightarrow>
               getitem R (2 * k) = Inr k \<and> getitem R (2 * k + 1) = Inr (4 - 1 - k)"
    by blast
  have k: "(0::int) \<le> 1 \<and> (1::int) < 4 div 2" by simp
  with all have "getitem R (2 * 1) = Inr 1 \<and> getitem R (2 * 1 + 1) = Inr (4 - 1 - 1)"
    by blast
  with R k show ?thesis by auto
qed

text \<open>
  Claim C2. For every even \<open>n \<ge> 2\<close> the list returned by \<open>_make_sequence(n)\<close> is a
  permutation of \<open>0 .. n - 1\<close>: it has length \<open>n\<close>, no index occurs twice, and the indices
  that occur are exactly those of the range.
\<close>

theorem make_sequence_permutation:
  assumes "2 \<le> n" and "even n"
  shows "\<exists>R. make_sequence n = Inr R \<and> length R = nat n \<and> distinct R \<and> set R = {0..n - 1}"
proof -
  have n0: "0 \<le> n" using assms by simp
  from make_sequence_nth[OF n0 assms(2)] obtain R where
    R: "make_sequence n = Inr R" and len: "length R = nat n" by blast
  from make_sequence_perm[OF n0 assms(2) R] R len show ?thesis by blast
qed

theorem make_sequence_permutation_witness:
  "(2::int) \<le> 6 \<and> even (6::int) \<and>
   (\<exists>R. make_sequence 6 = Inr R \<and> length R = 6 \<and> distinct R \<and> set R = {0..5})"
proof -
  have h1: "(2::int) \<le> 6" and h2: "even (6::int)" by simp_all
  from make_sequence_permutation[OF h1 h2] show ?thesis by simp
qed

text \<open>
  Claim C3. For every odd \<open>n\<close> (positive or negative) \<open>_make_sequence(n)\<close> returns no list:
  the assertion on line 13 fails first. The \<open>AssertionError\<close> is how the script signals its
  invalid-argument condition; nothing shorter than \<open>n\<close> entries is ever returned in its place.
\<close>

theorem make_sequence_odd_fails:
  assumes "odd n"
  shows "make_sequence n = Inl AssertionError"
proof -
  have "n mod 2 \<noteq> 0" using assms by presburger
  then show ?thesis by (simp add: make_sequence_def)
qed

theorem make_sequence_odd_fails_witness:
  "odd (5::int) \<and> make_sequence 5 = Inl AssertionError \<and>
   odd (- 3::int) \<and> make_sequence (- 3) = Inl AssertionError"
proof -
  have h1: "odd (5::int)" and h2: "odd (- 3::int)" by simp_all
  from make_sequence_odd_fails[OF h1] make_sequence_odd_fails[OF h2] h1 h2
  show ?thesis by blast
qed

text \<open>
  Claim C7. For every even \<open>n > 2\<close> the transform is not its own inverse. Reordering the
  document whose pages are \<open>0 .. n - 1\<close> gives \<open>R\<close> itself; reordering that document once
  more (the copy loop of \<open>reorder\<close> run on \<open>R\<close> with the order \<open>R\<close>, which is the composition
  of the permutation with itself) gives a list that differs from \<open>0 .. n - 1\<close>: at position 1
  it holds \<open>n/2\<close>.
\<close>

theorem make_sequence_not_self_inverse:
  assumes "2 < n" "even n"
  shows "\<exists>R RR. make_sequence n = Inr R \<and> add_pages R R = Inr RR \<and> RR \<noteq> py_range 0 n"
proof -
  have n0: "0 \<le> n" using assms by simp
  obtain m where m: "nat n = 2 * m" using n0 assms(2)
    by (metis even_nat_iff evenE)
  have n: "n = 2 * int m" and m2: "2 \<le> m" using m assms by linarith+
  from make_sequence_nth[OF n0 assms(2)] obtain R where
    R: "make_sequence n = Inr R" and len: "length R = nat n"
    and nth: "\<And>k. k < m \<Longrightarrow> R ! (2 * k) = int k \<and> R ! (2 * k + 1) = n - 1 - int k"
    using m by auto
  from make_sequence_perm[OF n0 assms(2) R] have set: "set R = {0..n - 1}" by simp
  have "\<forall>i \<in> set R. 0 \<le> i \<and> i < int (length R)"
    using set len n0 by auto
  then have RR: "add_pages R R = Inr (map (\<lambda>i. R ! nat i) R)"
    by (rule add_pages_map)
  have r1: "R ! 1 = n - 1" using nth[of 0] m2 by simp
  have rl: "R ! nat (n - 1) = int m"
  proof -
    have "nat (n - 1) = 2 * (m - 1) + 1" using n m2 by linarith
    then show ?thesis using nth[of "m - 1"] m2 n by simp
  qed
  have a: "map (\<lambda>i. R ! nat i) R ! 1 = int m"
    using len m m2 r1 rl by simp
  have b: "py_range 0 n ! 1 = 1"
    using m m2 by (simp add: py_range_0)
  have "map (\<lambda>i. R ! nat i) R \<noteq> py_range 0 n"
  proof
    assume "map (\<lambda>i. R ! nat i) R = py_range 0 n"
    with a b have "int m = 1" by simp
    with m2 show False by simp
  qed
  with R RR show ?thesis by blast
qed

theorem make_sequence_not_self_inverse_witness:
  "(2::int) < 4 \<and> even (4::int) \<and>
   (\<exists>R RR. make_sequence 4 = Inr R \<and> add_pages R R = Inr RR \<and> RR \<noteq> py_range 0 4)"
proof -
  have h1: "(2::int) < 4" and h2: "even (4::int)" by simp_all
  from make_sequence_not_self_inverse[OF h1 h2] h1 h2 show ?thesis by blast
qed

text \<open>
  Claim C8, as stated for every even \<open>n\<close>, fails at \<open>n = 0\<close>: the sequence is empty, and
  reading position 0 or position 1 of it raises \<open>IndexError\<close>.
\<close>

theorem make_sequence_first_two_counterexample:
  "make_sequence 0 = Inr [] \<and>
   getitem ([] :: int list) 0 = Inl IndexError \<and>
   getitem ([] :: int list) 1 = Inl IndexError"
  by (simp add: make_sequence_def py_range_def assign_step2_def getitem_def)

text \<open>
  Claim C8, amended. For every even \<open>n \<ge> 2\<close> the list \<open>R\<close> returned by \<open>_make_sequence(n)\<close>
  has \<open>R[0] = 0\<close> and \<open>R[1] = n - 1\<close>: first the first front page, then the last back page.
\<close>

theorem make_sequence_first_two:
  assumes "2 \<le> n" and "even n"
  shows "\<exists>R. make_sequence n = Inr R \<and> getitem R 0 = Inr 0 \<and> getitem R 1 = Inr (n - 1)"
proof -
  have n0: "0 \<le> n" using assms by simp
  from make_sequence_nth[OF n0 assms(2)] obtain R where
    R: "make_sequence n = Inr R" and len: "length R = nat n" and
    nth: "\<forall>j < nat n div 2. R ! (2 * j) = int j \<and> R ! (2 * j + 1) = n - 1 - int j"
    by blast
  have "0 < nat n div 2" using assms by auto
  with nth have "R ! 0 = 0 \<and> R ! 1 = n - 1" by fastforce
  moreover have "1 < length R" using len assms by simp
  ultimately have "getitem R 0 = Inr 0 \<and> getitem R 1 = Inr (n - 1)"
    by (auto simp: getitem_def)
  with R show ?thesis by blast
qed

theorem make_sequence_first_two_witness:
  "(2::int) \<le> 2 \<and> even (2::int) \<and>
   (\<exists>R. make_sequence 2 = Inr R \<and> getitem R 0 = Inr 0 \<and> getitem R 1 = Inr (2 - 1))"
proof -
  have h1: "(2::int) \<le> 2" and h2: "even (2::int)" by simp_all
  from make_sequence_first_two[OF h1 h2] h1 h2 show ?thesis by blast
qed

section \<open>Claims about the reorder script\<close>

text \<open>
  Claim C6. The script rejects a missing input and an existing output that differs from the
  input, each with \<open>exit(-1)\<close> after a message. When the output path equals the (existing)
  input path the script's own check lets the call through, but \<open>reorder\<close> then asserts
  that the output does not exist (line 27): the run ends in \<open>AssertionError\<close> and nothing is
  written. The run below is \<open>reorder doc.pdf doc.pdf\<close> on a four-page document.
\<close>

theorem reorder_main_in_place_fails:
  "reorder_main [''doc.pdf'' \<mapsto> [101, 102, 103, 104 :: nat]] ''doc.pdf'' ''doc.pdf'' =
     ([], Inl AssertionError)"
  by (simp add: reorder_main_def reorder_def)

section \<open>Claims about the split script\<close>








lemma parse_row_fields:
  assumes "parse_row r = Inr c"
  shows "r ''name'' = Some (name c) \<and>
         (\<exists>s. r ''start'' = Some s \<and> py_int s = Inr (start c)) \<and>
         (\<exists>t. r ''end'' = Some t \<and> py_int t = Inr (stop c))"
  using assms
  by (auto simp: parse_row_def lookup_def split: option.splits sum.splits)

lemma parse_rows_rows:
  "parse_rows acc rows = Inr chapters \<Longrightarrow>
   \<exists>new. chapters = acc @ new \<and> length new = length rows \<and>
         (\<forall>i < length rows. parse_row (rows ! i) = Inr (new ! i))"
proof (induction rows arbitrary: acc)
  case Nil
  then show ?case by simp
next
  case (Cons r rows)
  from Cons.prems obtain entry where
    entry: "parse_row r = Inr entry" and
    rest: "parse_rows (acc @ [entry]) rows = Inr chapters"
    by (auto split: sum.splits)
  from Cons.IH[OF rest] obtain new where
    new: "chapters = (acc @ [entry]) @ new" "length new = length rows"
      "\<forall>i < length rows. parse_row (rows ! i) = Inr (new ! i)"
    by blast
  have "\<forall>i < length (r # rows). parse_row ((r # rows) ! i) = Inr ((entry # new) ! i)"
    using entry new(3) by (auto simp: nth_Cons split: nat.splits)
  with new show ?case by (intro exI[of _ "entry # new"]) simp
qed

text \<open>
  Claim C9, as stated, fails: \<open>_parse_splits_file\<close> checks no range. The row
  \<open>a,5,2\<close> parses to \<open>Chapter("a", 5, 2)\<close>, whose \<open>start\<close> exceeds its \<open>stop\<close>.
\<close>

theorem parse_splits_file_counterexample:
  "parse_splits_file
     [''chapters.csv'' \<mapsto> [[''name'' \<mapsto> ''a'', ''start'' \<mapsto> ''5'', ''end'' \<mapsto> ''2'']]]
     ''chapters.csv'' = Inr [\<lparr>name = ''a'', start = 5, stop = 2\<rparr>] \<and>
   \<not> (start \<lparr>name = ''a'', start = 5, stop = 2\<rparr> \<le> stop \<lparr>name = ''a'', start = 5, stop = 2\<rparr>)"
  by (simp add: parse_splits_file_def parse_row_def lookup_def py_int_def strip_def
      is_space_def digit_of_def)

text \<open>
  Claim C9, amended. Every \<open>Chapter\<close> produced by parsing a row holds the row's \<open>name\<close>
  field and the integer values of its \<open>start\<close> and \<open>end\<close> fields, one chapter per row and in
  the order of the rows. The bounds \<open>1 \<le> start \<le> stop \<le>\<close> page count therefore hold for a
  chapter exactly when they hold for the numbers written in its row.
\<close>

theorem parse_splits_file_fields:
  assumes "parse_splits_file csvs filename = Inr chapters"
  shows "\<exists>rows. csvs filename = Some rows \<and> length chapters = length rows \<and>
           (\<forall>i < length rows.
              (rows ! i) ''name'' = Some (name (chapters ! i)) \<and>
              (\<exists>s. (rows ! i) ''start'' = Some s \<and> py_int s = Inr (start (chapters ! i))) \<and>
              (\<exists>t. (rows ! i) ''end'' = Some t \<and> py_int t = Inr (stop (chapters ! i))))"
proof -
  from assms obtain rows where
    rows: "csvs filename = Some rows" and p: "parse_rows [] rows = Inr chapters"
    by (auto simp: parse_splits_file_def split: option.splits)
  from parse_rows_rows[OF p] have len: "length chapters = length rows"
    and each: "\<forall>i < length rows. parse_row (rows ! i) = Inr (chapters ! i)"
    by auto
  from each have "\<forall>i < length rows.
              (rows ! i) ''name'' = Some (name (chapters ! i)) \<and>
              (\<exists>s. (rows ! i) ''start'' = Some s \<and> py_int s = Inr (start (chapters ! i))) \<and>
              (\<exists>t. (rows ! i) ''end'' = Some t \<and> py_int t = Inr (stop (chapters ! i)))"
    using parse_row_fields by blast
  with rows len show ?thesis by blast
qed

theorem parse_splits_file_fields_witness:
  "parse_splits_file
     [''chapters.csv'' \<mapsto> [[''name'' \<mapsto> ''intro.pdf'', ''start'' \<mapsto> ''1'', ''end'' \<mapsto> ''3'']]]
     ''chapters.csv'' = Inr [\<lparr>name = ''intro.pdf'', start = 1, stop = 3\<rparr>] \<and>
   (\<exists>rows. [''chapters.csv'' \<mapsto> [[''name'' \<mapsto> ''intro.pdf'', ''start'' \<mapsto> ''1'', ''end'' \<mapsto> ''3'']]]
             ''chapters.csv'' = Some rows \<and>
           length [\<lparr>name = ''intro.pdf'', start = 1, stop = 3\<rparr>] = length rows \<and>
           0 < length rows \<and>
           (rows ! 0) ''name'' = Some ''intro.pdf'' \<and>
           (\<exists>s. (rows ! 0) ''start'' = Some s \<and> py_int s = Inr 1) \<and>
           (\<exists>t. (rows ! 0) ''end'' = Some t \<and> py_int t = Inr 3))"
proof -
  let ?csvs = "[''chapters.csv'' \<mapsto>
                 [[''name'' \<mapsto> ''intro.pdf'', ''start'' \<mapsto> ''1'', ''end'' \<mapsto> ''3'']]]"
  let ?chs = "[\<lparr>name = ''intro.pdf'', start = 1, stop = 3\<rparr>]"
  have h: "parse_splits_file ?csvs ''chapters.csv'' = Inr ?chs"
    by (simp add: parse_splits_file_def parse_row_def lookup_def py_int_def strip_def
        is_space_def digit_of_def)
  from parse_splits_file_fields[OF h] obtain rows where
    rows: "?csvs ''chapters.csv'' = Some rows" "length ?chs = length rows"
    and all: "\<forall>i < length rows.
              (rows ! i) ''name'' = Some (name (?chs ! i)) \<and>
              (\<exists>s. (rows ! i) ''start'' = Some s \<and> py_int s = Inr (start (?chs ! i))) \<and>
              (\<exists>t. (rows ! i) ''end'' = Some t \<and> py_int t = Inr (stop (?chs ! i)))"
    by blast
  from rows(2) have pos: "0 < length rows" by auto
  with all have "(rows ! 0) ''name'' = Some (name (?chs ! 0)) \<and>
              (\<exists>s. (rows ! 0) ''start'' = Some s \<and> py_int s = Inr (start (?chs ! 0))) \<and>
              (\<exists>t. (rows ! 0) ''end'' = Some t \<and> py_int t = Inr (stop (?chs ! 0)))"
    by blast
  then have "(rows ! 0) ''name'' = Some ''intro.pdf'' \<and>
           (\<exists>s. (rows ! 0) ''start'' = Some s \<and> py_int s = Inr 1) \<and>
           (\<exists>t. (rows ! 0) ''end'' = Some t \<and> py_int t = Inr 3)"
    by simp
  with h rows pos show ?thesis by blast
qed

section \<open>Claims about the merge script\<close>

text \<open>
  Claim C5. \<open>_expand_files\<close> does not resolve an existing plain file to itself, nor an
  existing directory to the files in it: it adds a \<open>str\<close>, respectively the generator returned
  by \<open>Path.glob\<close>, to the list \<open>result\<close>, and either addition raises \<open>TypeError\<close>. Only an
  argument that is neither reaches \<open>glob\<close>. The two runs below are on a system with the
  plain file \<open>a.pdf\<close> and the directory \<open>docs\<close>.
\<close>

theorem expand_files_existing_path_raises:
  "expand_files
     \<lparr>isfile = (\<lambda>p. p = ''a.pdf''), isdir = (\<lambda>p. p = ''docs''),
      dir_glob = (\<lambda>p. if p = ''docs'' then [''docs/b.pdf''] else []),
      glob = (\<lambda>p. if p = ''a.pdf'' \<or> p = ''docs'' then [p] else [])\<rparr>
     [''a.pdf''] = Inl TypeError \<and>
   expand_files
     \<lparr>isfile = (\<lambda>p. p = ''a.pdf''), isdir = (\<lambda>p. p = ''docs''),
      dir_glob = (\<lambda>p. if p = ''docs'' then [''docs/b.pdf''] else []),
      glob = (\<lambda>p. if p = ''a.pdf'' \<or> p = ''docs'' then [p] else [])\<rparr>
     [''docs''] = Inl TypeError"
  by (simp add: expand_files_def)

lemma merge_loop_append:
  "merge_loop fs merged (xs @ ys) skip =
     (case merge_loop fs merged xs skip of
        Inl e \<Rightarrow> Inl e
      | Inr merged1 \<Rightarrow> merge_loop fs merged1 ys skip)"
  by (induction xs arbitrary: merged) (simp_all split: option.splits)

lemma merge_loop_exists:
  "\<forall>g \<in> set filenames. fs g \<noteq> None \<Longrightarrow>
   merge_loop fs merged filenames skip =
     Inr (merged @ concat (map (\<lambda>g. source_pages (the (fs g)) skip) filenames))"
  by (induction filenames arbitrary: merged) auto

lemma source_pages_short:
  "int (length doc) \<le> k \<Longrightarrow> source_pages doc (Some k) = []"
  by (auto simp: source_pages_def truthy_def slice_from_def)

lemma source_pages_zero: "source_pages doc (Some 0) = source_pages doc None"
  by (simp add: source_pages_def truthy_def)

lemma merge_loop_zero:
  "merge_loop fs merged filenames (Some 0) = merge_loop fs merged filenames None"
  by (induction filenames arbitrary: merged) (simp_all add: source_pages_zero split: option.splits)

lemma merge_skips_short:
  assumes "fs f = Some doc" "int (length doc) \<le> k"
  shows "merge fs output (xs @ f # ys) (Some k) = merge fs output (xs @ ys) (Some k)"
  using assms
  by (simp add: merge_def merge_loop_append source_pages_short split: sum.splits)

text \<open>
  Claim C10. A source with at most \<open>skip_front\<close> pages contributes no page (its slice is
  empty) and the merge goes on: the result is the same as without that source. Whenever every
  source can be opened, \<open>merge\<close> completes and writes the concatenation of the pages each
  source contributes. \<open>skip_front = 0\<close> behaves as \<open>skip_front\<close> omitted.
\<close>

theorem merge_skip_front:
  "(fs f = Some doc \<and> int (length doc) \<le> k \<longrightarrow>
      source_pages doc (Some k) = [] \<and>
      merge fs out (xs @ f # ys) (Some k) = merge fs out (xs @ ys) (Some k)) \<and>
   ((\<forall>g \<in> set filenames. fs g \<noteq> None) \<longrightarrow>
      merge fs out filenames skip_front =
        Inr (fs(out \<mapsto> concat (map (\<lambda>g. source_pages (the (fs g)) skip_front) filenames)))) \<and>
   merge fs out filenames (Some 0) = merge fs out filenames None"
proof (intro conjI impI)
  assume a: "fs f = Some doc \<and> int (length doc) \<le> k"
  then show "source_pages doc (Some k) = []" by (simp add: source_pages_short)
  from a show "merge fs out (xs @ f # ys) (Some k) = merge fs out (xs @ ys) (Some k)"
    by (simp add: merge_skips_short)
next
  assume "\<forall>g \<in> set filenames. fs g \<noteq> None"
  then show "merge fs out filenames skip_front =
        Inr (fs(out \<mapsto> concat (map (\<lambda>g. source_pages (the (fs g)) skip_front) filenames)))"
    by (simp add: merge_def merge_loop_exists)
next
  show "merge fs out filenames (Some 0) = merge fs out filenames None"
    by (simp add: merge_def merge_loop_zero)
qed

theorem merge_skip_front_witness:
  "[''a.pdf'' \<mapsto> [11, 12 :: nat], ''b.pdf'' \<mapsto> [21, 22, 23]] ''a.pdf'' = Some [11, 12] \<and>
   int (length [11, 12 :: nat]) \<le> 2 \<and>
   source_pages [11, 12 :: nat] (Some 2) = [] \<and>
   merge [''a.pdf'' \<mapsto> [11, 12 :: nat], ''b.pdf'' \<mapsto> [21, 22, 23]] ''out.pdf''
     ([] @ ''a.pdf'' # [''b.pdf'']) (Some 2) =
   merge [''a.pdf'' \<mapsto> [11, 12 :: nat], ''b.pdf'' \<mapsto> [21, 22, 23]] ''out.pdf''
     ([] @ [''b.pdf'']) (Some 2) \<and>
   [''a.pdf'' \<mapsto> [11, 12 :: nat], ''b.pdf'' \<mapsto> [21, 22, 23]] ''a.pdf'' \<noteq> None \<and>
   [''a.pdf'' \<mapsto> [11, 12 :: nat], ''b.pdf'' \<mapsto> [21, 22, 23]] ''b.pdf'' \<noteq> None \<and>
   merge [''a.pdf'' \<mapsto> [11, 12 :: nat], ''b.pdf'' \<mapsto> [21, 22, 23]] ''out.pdf''
     [''a.pdf'', ''b.pdf''] (Some 2) =
   Inr [''a.pdf'' \<mapsto> [11, 12 :: nat], ''b.pdf'' \<mapsto> [21, 22, 23], ''out.pdf'' \<mapsto> [23]] \<and>
   merge [''a.pdf'' \<mapsto> [11, 12 :: nat], ''b.pdf'' \<mapsto> [21, 22, 23]] ''out.pdf''
     [''a.pdf'', ''b.pdf''] (Some 0) =
   merge [''a.pdf'' \<mapsto> [11, 12 :: nat], ''b.pdf'' \<mapsto> [21, 22, 23]] ''out.pdf''
     [''a.pdf'', ''b.pdf''] None"
proof -
  let ?fs = "[''a.pdf'' \<mapsto> [11, 12 :: nat], ''b.pdf'' \<mapsto> [21, 22, 23]]"
  have h1: "?fs ''a.pdf'' = Some [11, 12] \<and> int (length [11, 12 :: nat]) \<le> 2" by simp
  have h2: "\<forall>g \<in> set [''a.pdf'', ''b.pdf'']. ?fs g \<noteq> None" by simp
  have h3: "?fs ''a.pdf'' \<noteq> None \<and> ?fs ''b.pdf'' \<noteq> None" by simp
  have c: "concat (map (\<lambda>g. source_pages (the (?fs g)) (Some 2)) [''a.pdf'', ''b.pdf'']) = [23]"
    by (simp add: source_pages_def truthy_def slice_from_def)
  note w = merge_skip_front[where fs = ?fs and f = "''a.pdf''" and doc = "[11, 12]" and k = 2
      and out = "''out.pdf''" and xs = "[]" and ys = "[''b.pdf'']"
      and filenames = "[''a.pdf'', ''b.pdf'']" and skip_front = "Some 2"]
  from w h1 have p1: "source_pages [11, 12 :: nat] (Some 2) = [] \<and>
      merge ?fs ''out.pdf'' ([] @ ''a.pdf'' # [''b.pdf'']) (Some 2) =
      merge ?fs ''out.pdf'' ([] @ [''b.pdf'']) (Some 2)"
    by blast
  from w h2 have "merge ?fs ''out.pdf'' [''a.pdf'', ''b.pdf''] (Some 2) =
      Inr (?fs(''out.pdf'' \<mapsto>
        concat (map (\<lambda>g. source_pages (the (?fs g)) (Some 2)) [''a.pdf'', ''b.pdf''])))"
    by blast
  then have p2: "merge ?fs ''out.pdf'' [''a.pdf'', ''b.pdf''] (Some 2) =
      Inr (?fs(''out.pdf'' \<mapsto> [23]))"
    unfolding c .
  from w have p3: "merge ?fs ''out.pdf'' [''a.pdf'', ''b.pdf''] (Some 0) =
      merge ?fs ''out.pdf'' [''a.pdf'', ''b.pdf''] None"
    by blast
  from h1 h3 p1 p2 p3 show ?thesis by blast
qed

end
